theory Spec2Isabelle
  imports Complex_Main
begin

section \<open>The transport: \<open>send_ngl_message\<close>\<close>

text \<open>
  The call \<open>session.post(...)\<close> is the only contact with the network. Its result is the
  input of the model: a response with a status code, or a raised exception, named by the
  first \<open>except\<close> clause of \<open>send_ngl_message\<close> that catches it (\<open>Timeout\<close>, then
  \<open>ConnectionError\<close>, then any other \<open>RequestException\<close> with its text \<open>str(e)\<close>).
  An exception that is no \<open>RequestException\<close> is not caught by the function and has no
  place in this type.
\<close>

datatype post_result =
    Response int
  | Timeout
  | ConnectionError
  | RequestException string

text \<open>Python's \<open>str\<close> on an integer, as the f-string \<open>{response.status_code}\<close> renders it.\<close>

definition digit_char :: "nat \<Rightarrow> char" where
  "digit_char d = ''0123456789'' ! d"

fun str_nat :: "nat \<Rightarrow> string" where
  "str_nat n = (if n < 10 then [digit_char n] else str_nat (n div 10) @ [digit_char (n mod 10)])"

definition str_int :: "int \<Rightarrow> string" where
  "str_int k = (if k < 0 then CHR ''-'' # str_nat (nat (- k)) else str_nat (nat k))"

definition send_ngl_message :: "post_result \<Rightarrow> bool \<times> string" where
  "send_ngl_message r =
     (case r of
        Response status_code \<Rightarrow>
          if status_code = 200 then (True, ''Success'')
          else if status_code = 429 then (False, ''Rate limited (429)'')
          else (False, ''Status code: '' @ str_int status_code)
      | Timeout \<Rightarrow> (False, ''Request timeout'')
      | ConnectionError \<Rightarrow> (False, ''Connection error'')
      | RequestException e \<Rightarrow> (False, ''Request error: '' @ e))"

section \<open>Strings: \<open>in\<close> and \<open>strip\<close>\<close>

text \<open>\<open>needle in hay\<close> on Python strings: \<open>needle\<close> occurs as a contiguous substring.\<close>

definition starts_with :: "string \<Rightarrow> string \<Rightarrow> bool" where
  "starts_with needle hay = (take (length needle) hay = needle)"

fun py_in :: "string \<Rightarrow> string \<Rightarrow> bool" where
  "py_in needle [] = (needle = [])"
| "py_in needle (c # cs) = (starts_with needle (c # cs) \<or> py_in needle cs)"

text \<open>
  \<open>str.strip()\<close>: whitespace is removed at both ends. The whitespace characters below
  128 are modelled (a \<open>char\<close> is a byte).
\<close>

definition is_space :: "char \<Rightarrow> bool" where
  "is_space c =
     (c \<in> set [CHR '' '', CHR 0x09, CHR 0x0A, CHR 0x0B, CHR 0x0C, CHR 0x0D,
                CHR 0x1C, CHR 0x1D, CHR 0x1E, CHR 0x1F])"

definition py_strip :: "string \<Rightarrow> string" where
  "py_strip s = rev (dropWhile is_space (rev (dropWhile is_space s)))"

section \<open>The backoff wait\<close>

text \<open>
  \<open>wait_time = base_wait_time * (1.5 ** (consecutive_rate_limits - 1))\<close>, then
  \<open>min(wait_time, 300)\<close>. The floating-point values are modelled by exact rationals:
  \<open>1.5 ** k\<close> and its product with 30 are exact in binary64 up to \<open>k = 30\<close>, and above
  \<open>k = 6\<close> the product is far above 300, so that rounding never changes the minimum.
  Python's \<open>float ** int\<close> raises \<open>OverflowError\<close> when the result leaves the range of
  binary64 (\<open>2 ^ 1024\<close>), which \<open>1.5 ** k\<close> does from \<open>k = 1751\<close> on; the power is
  computed before the cap is applied.
\<close>

datatype py_error = OverflowError | ZeroDivisionError

definition overflow_exponent :: int where
  "overflow_exponent = 1751"

definition py_pow_1_5 :: "int \<Rightarrow> py_error + rat" where
  "py_pow_1_5 k =
     (if overflow_exponent \<le> k then Inl OverflowError
      else if 0 \<le> k then Inr ((3 / 2) ^ nat k)
      else Inr (1 / (3 / 2) ^ nat (- k)))"

definition base_wait_time :: rat where
  "base_wait_time = 30"

definition wait_time :: "int \<Rightarrow> py_error + rat" where
  "wait_time consecutive =
     (case py_pow_1_5 (consecutive - 1) of
        Inl e \<Rightarrow> Inl e
      | Inr p \<Rightarrow> Inr (min (base_wait_time * p) 300))"

text \<open>\<open>int(x)\<close> on a float truncates towards zero.\<close>

definition py_int :: "rat \<Rightarrow> int" where
  "py_int x = (if 0 \<le> x then \<lfloor>x\<rfloor> else \<lceil>x\<rceil>)"

text \<open>\<open>range(n, 0, -1)\<close>: \<open>n, n - 1, ..., 1\<close>, empty when \<open>n \<le> 0\<close>.\<close>

definition countdown :: "int \<Rightarrow> int list" where
  "countdown n = rev [1..n]"

section \<open>The submission loop: \<open>send_multiple_messages\<close>\<close>

record loop_state =
  success_count :: int
  fail_count :: int
  consecutive_rate_limits :: int
  i :: int

definition initial_state :: loop_state where
  "initial_state = \<lparr>success_count = 0, fail_count = 0, consecutive_rate_limits = 0, i = 1\<rparr>"

text \<open>
  What one pass does to the outside world, in order: the transport call for slot \<open>i\<close>,
  the random delay after a success, the prompt, each one-second sleep of the countdown
  (with the seconds remaining), the fixed two-second sleep after another failure.
\<close>

datatype event =
    Sending int
  | SleepUniform
  | Prompt
  | SleepSecond int
  | SleepTwo

text \<open>
  A pass ends at the bottom of the loop body (\<open>Next\<close>), in the \<open>break\<close> of the prompt
  (\<open>Break\<close>), or in an exception that leaves the function (\<open>Raise\<close>); each carries the
  state at that moment.
\<close>

datatype pass_result =
    Next loop_state
  | Break loop_state
  | Raise py_error loop_state

text \<open>
  The input of a pass: the result of the transport call, and the line the user types if
  the prompt is shown in this pass (not read otherwise).
\<close>

type_synonym pass_input = "post_result \<times> string"

definition loop_body :: "int \<Rightarrow> loop_state \<Rightarrow> pass_input \<Rightarrow> pass_result \<times> event list" where
  "loop_body count s inp =
     (let (success, message_status) = send_ngl_message (fst inp) in
      if success then
        (let s1 = s\<lparr>success_count := success_count s + 1,
                    consecutive_rate_limits := 0,
                    i := i s + 1\<rparr>
         in (Next s1, Sending (i s) # (if i s1 \<le> count then [SleepUniform] else [])))
      else if py_in ''429'' message_status then
        (let s1 = s\<lparr>fail_count := fail_count s + 1,
                    consecutive_rate_limits := consecutive_rate_limits s + 1\<rparr>
         in case wait_time (consecutive_rate_limits s1) of
              Inl e \<Rightarrow> (Raise e s1, [Sending (i s)])
            | Inr w \<Rightarrow>
                if 3 \<le> consecutive_rate_limits s1 then
                  (if py_strip (snd inp) = ''2'' then (Break s1, [Sending (i s), Prompt])
                   else (Next s1, [Sending (i s), Prompt] @ map SleepSecond (countdown (py_int w))))
                else (Next s1, [Sending (i s)] @ map SleepSecond (countdown (py_int w))))
      else
        (let s1 = s\<lparr>fail_count := fail_count s + 1,
                    consecutive_rate_limits := 0,
                    i := i s + 1\<rparr>
         in (Next s1, [Sending (i s), SleepTwo])))"

text \<open>
  How a run over a finite list of pass inputs ends: the loop condition \<open>i <= count\<close>
  fails (\<open>Completed\<close>), the user stops it (\<open>Aborted\<close>), an exception leaves it
  (\<open>Failed\<close>), or the inputs are used up while the loop still asks for one (\<open>Pending\<close>:
  the real loop would go on).
\<close>

datatype ending = Completed | Aborted | Failed py_error | Pending

text \<open>
  The result of a run: how it ended, the state after each pass in order (one entry per
  pass taken), the last state, and the events of all passes.
\<close>

record run =
  ending :: ending
  states :: "loop_state list"
  final :: loop_state
  trace :: "event list"

fun while_loop :: "int \<Rightarrow> loop_state \<Rightarrow> pass_input list \<Rightarrow> run" where
  "while_loop count s [] =
     \<lparr>ending = (if i s \<le> count then Pending else Completed), states = [], final = s, trace = []\<rparr>"
| "while_loop count s (inp # inps) =
     (if i s \<le> count then
        (case loop_body count s inp of
           (Next s1, evs) \<Rightarrow>
             (let r = while_loop count s1 inps
              in r\<lparr>states := s1 # states r, trace := evs @ trace r\<rparr>)
         | (Break s1, evs) \<Rightarrow>
             \<lparr>ending = Aborted, states = [s1], final = s1, trace = evs\<rparr>
         | (Raise e s1, evs) \<Rightarrow>
             \<lparr>ending = Failed e, states = [s1], final = s1, trace = evs\<rparr>)
      else \<lparr>ending = Completed, states = [], final = s, trace = []\<rparr>)"

definition passes :: "run \<Rightarrow> nat" where
  "passes r = length (states r)"

text \<open>
  The summary printed after the loop: the two tallies against \<open>count\<close>, and the success
  rate in percent when the line is printed (the rendering \<open>:.1f\<close> is left out).
\<close>

record summary =
  successful :: "int \<times> int"
  failed :: "int \<times> int"
  success_rate :: "rat option"

definition report :: "int \<Rightarrow> loop_state \<Rightarrow> py_error + summary" where
  "report count s =
     (if 0 < success_count s then
        (if success_count s + fail_count s = 0 then Inl ZeroDivisionError
         else Inr \<lparr>successful = (success_count s, count), failed = (fail_count s, count),
                   success_rate =
                     Some (of_int (success_count s) / of_int (success_count s + fail_count s) * 100)\<rparr>)
      else Inr \<lparr>successful = (success_count s, count), failed = (fail_count s, count),
                success_rate = None\<rparr>)"

text \<open>
  The whole function on a list of pass inputs: the loop from the initial state, then the
  summary, unless an exception has left the function before.
\<close>

definition send_multiple_messages :: "int \<Rightarrow> pass_input list \<Rightarrow> run \<times> (py_error + summary) option" where
  "send_multiple_messages count inps =
     (let r = while_loop count initial_state inps
      in case ending r of
           Failed e \<Rightarrow> (r, None)
         | Pending \<Rightarrow> (r, None)
         | _ \<Rightarrow> (r, Some (report count (final r))))"

section \<open>Auxiliary notions for the statements\<close>

text \<open>The branch of the \<open>if\<close>/\<open>elif\<close>/\<open>else\<close> of the loop body that a transport result selects.\<close>

datatype branch = OnSuccess | OnRateLimit | OnOtherFailure

definition branch_of :: "post_result \<Rightarrow> branch" where
  "branch_of r =
     (let (success, message_status) = send_ngl_message r in
      if success then OnSuccess
      else if py_in ''429'' message_status then OnRateLimit
      else OnOtherFailure)"

text \<open>The state a pass leaves behind, however the pass ends.\<close>

fun state_of :: "pass_result \<Rightarrow> loop_state" where
  "state_of (Next s) = s"
| "state_of (Break s) = s"
| "state_of (Raise e s) = s"

text \<open>A pass input whose slot is given up: the failure is counted and \<open>i\<close> moves on.\<close>

definition skips :: "pass_input \<Rightarrow> bool" where
  "skips inp = (branch_of (fst inp) = OnOtherFailure)"

section \<open>One pass\<close>

lemma success_message: "fst (send_ngl_message r) \<Longrightarrow> snd (send_ngl_message r) = ''Success''"
  by (cases r) (auto simp: send_ngl_message_def split: if_splits)

lemma no_429_in_Success: "\<not> py_in ''429'' ''Success''"
  by (simp add: starts_with_def)

lemma branch_of_429: "branch_of r = OnRateLimit \<longleftrightarrow> py_in ''429'' (snd (send_ngl_message r))"
  using success_message[of r] no_429_in_Success
  by (auto simp: branch_of_def split: prod.splits if_splits)

lemma body_success:
  assumes "branch_of (fst inp) = OnSuccess"
  shows "loop_body count s inp =
    (Next (s\<lparr>success_count := success_count s + 1, consecutive_rate_limits := 0, i := i s + 1\<rparr>),
     Sending (i s) # (if i s + 1 \<le> count then [SleepUniform] else []))"
  using assms by (auto simp: loop_body_def branch_of_def Let_def split: prod.splits if_splits)

lemma body_other:
  assumes "branch_of (fst inp) = OnOtherFailure"
  shows "loop_body count s inp =
    (Next (s\<lparr>fail_count := fail_count s + 1, consecutive_rate_limits := 0, i := i s + 1\<rparr>),
     [Sending (i s), SleepTwo])"
  using assms by (auto simp: loop_body_def branch_of_def Let_def split: prod.splits if_splits)

lemma body_rate_limit_state:
  assumes "branch_of (fst inp) = OnRateLimit"
  shows "state_of (fst (loop_body count s inp)) =
    s\<lparr>fail_count := fail_count s + 1, consecutive_rate_limits := consecutive_rate_limits s + 1\<rparr>"
  using assms
  by (auto simp: loop_body_def branch_of_def Let_def split: prod.splits if_splits sum.splits)

lemma body_tally:
  "success_count (state_of (fst (loop_body count s inp)))
     + fail_count (state_of (fst (loop_body count s inp)))
   = success_count s + fail_count s + 1"
  using body_success[of inp count s] body_other[of inp count s] body_rate_limit_state[of inp count s]
  by (cases "branch_of (fst inp)") auto

lemma body_i_le:
  "i s \<le> count \<Longrightarrow> i (state_of (fst (loop_body count s inp))) \<le> count + 1"
  using body_success[of inp count s] body_other[of inp count s] body_rate_limit_state[of inp count s]
  by (cases "branch_of (fst inp)") auto

lemma body_i_delta:
  "i (state_of (fst (loop_body count s inp))) + success_count s
     = i s + success_count (state_of (fst (loop_body count s inp))) + (if skips inp then 1 else 0)"
  using body_success[of inp count s] body_other[of inp count s] body_rate_limit_state[of inp count s]
  by (cases "branch_of (fst inp)") (auto simp: skips_def)

section \<open>The whole loop\<close>

lemma loop_tally:
  "success_count (final (while_loop count s inps)) + fail_count (final (while_loop count s inps))
     = success_count s + fail_count s + int (passes (while_loop count s inps))"
proof (induction inps arbitrary: s)
  case Nil
  show ?case by (simp add: passes_def)
next
  case (Cons inp inps)
  show ?case
  proof (cases "i s \<le> count")
    case False
    then show ?thesis by (simp add: passes_def)
  next
    case True
    obtain pr evs where b: "loop_body count s inp = (pr, evs)" by (cases "loop_body count s inp")
    have t: "success_count (state_of pr) + fail_count (state_of pr) = success_count s + fail_count s + 1"
      using body_tally[of count s inp] b by simp
    show ?thesis
    proof (cases pr)
      case (Next s1)
      with True b t Cons.IH[of s1] show ?thesis by (simp add: passes_def Let_def)
    next
      case (Break s1)
      with True b t show ?thesis by (simp add: passes_def)
    next
      case (Raise e s1)
      with True b t show ?thesis by (simp add: passes_def)
    qed
  qed
qed

lemma loop_i_le:
  "i s \<le> count + 1 \<Longrightarrow> \<forall>t \<in> set (s # states (while_loop count s inps)). i t \<le> count + 1"
proof (induction inps arbitrary: s)
  case Nil
  then show ?case by simp
next
  case (Cons inp inps)
  show ?case
  proof (cases "i s \<le> count")
    case False
    with Cons.prems show ?thesis by simp
  next
    case True
    obtain pr evs where b: "loop_body count s inp = (pr, evs)" by (cases "loop_body count s inp")
    have t: "i (state_of pr) \<le> count + 1"
      using body_i_le[OF True, of inp] b by simp
    show ?thesis
    proof (cases pr)
      case (Next s1)
      with True b t Cons.IH[of s1] Cons.prems show ?thesis by (simp add: Let_def)
    next
      case (Break s1)
      with True b t Cons.prems show ?thesis by simp
    next
      case (Raise e s1)
      with True b t Cons.prems show ?thesis by simp
    qed
  qed
qed

lemma final_last: "final (while_loop count s inps) = last (s # states (while_loop count s inps))"
proof (induction inps arbitrary: s)
  case Nil
  show ?case by simp
next
  case (Cons inp inps)
  show ?case
  proof (cases "i s \<le> count")
    case False
    then show ?thesis by simp
  next
    case True
    obtain pr evs where b: "loop_body count s inp = (pr, evs)" by (cases "loop_body count s inp")
    show ?thesis
    proof (cases pr)
      case (Next s1)
      with True b Cons.IH[of s1] show ?thesis by (simp add: Let_def)
    next
      case (Break s1)
      with True b show ?thesis by simp
    next
      case (Raise e s1)
      with True b show ?thesis by simp
    qed
  qed
qed

lemma loop_i_delta:
  "i (final (while_loop count s inps)) + success_count s
     = i s + success_count (final (while_loop count s inps))
       + int (length (filter skips (take (passes (while_loop count s inps)) inps)))"
proof (induction inps arbitrary: s)
  case Nil
  show ?case by (simp add: passes_def)
next
  case (Cons inp inps)
  show ?case
  proof (cases "i s \<le> count")
    case False
    then show ?thesis by (simp add: passes_def)
  next
    case True
    obtain pr evs where b: "loop_body count s inp = (pr, evs)" by (cases "loop_body count s inp")
    have t: "i (state_of pr) + success_count s
               = i s + success_count (state_of pr) + (if skips inp then 1 else 0)"
      using body_i_delta[of count s inp] b by simp
    show ?thesis
    proof (cases pr)
      case (Next s1)
      with True b t Cons.IH[of s1] show ?thesis
        by (auto simp: passes_def Let_def split: if_splits)
    next
      case (Break s1)
      with True b t show ?thesis by (auto simp: passes_def split: if_splits)
    next
      case (Raise e s1)
      with True b t show ?thesis by (auto simp: passes_def split: if_splits)
    qed
  qed
qed

lemma loop_completed_i:
  "ending (while_loop count s inps) = Completed \<Longrightarrow> i s \<le> count + 1
     \<Longrightarrow> i (final (while_loop count s inps)) = count + 1"
proof (induction inps arbitrary: s)
  case Nil
  then show ?case by (simp split: if_splits)
next
  case (Cons inp inps)
  show ?case
  proof (cases "i s \<le> count")
    case False
    with Cons.prems show ?thesis by simp
  next
    case True
    obtain pr evs where b: "loop_body count s inp = (pr, evs)" by (cases "loop_body count s inp")
    have t: "i (state_of pr) \<le> count + 1"
      using body_i_le[OF True, of inp] b by simp
    show ?thesis
    proof (cases pr)
      case (Next s1)
      with True b t Cons.IH[of s1] Cons.prems show ?thesis by (simp add: Let_def)
    next
      case (Break s1)
      with True b Cons.prems show ?thesis by simp
    next
      case (Raise e s1)
      with True b Cons.prems show ?thesis by simp
    qed
  qed
qed

lemmas run_simps =
  loop_body_def send_ngl_message_def starts_with_def initial_state_def Let_def
  str_int_def digit_char_def

section \<open>The tallies and the number of passes\<close>

text \<open>
  C1, as stated, fails: a failure that is not a rate limit uses up its slot. With
  \<open>count = 2\<close> and the responses 500 and 200 the loop ends by itself, nobody has
  stopped it, and there is one success, not two.
\<close>

theorem skipped_slot_is_not_a_success:
  "ending (while_loop 2 initial_state [(Response 500, ''1''), (Response 200, ''1'')]) = Completed
   \<and> success_count (final (while_loop 2 initial_state [(Response 500, ''1''), (Response 200, ''1'')])) = 1"
  by (simp add: run_simps)

text \<open>
  C1, amended: for every finite sequence of pass inputs and every \<open>count\<close>, the successes
  and the failures (a rate-limited pass counts as a failure) add up to the number of
  passes taken, however the run ends; and when \<open>1 \<le> count\<close> and the loop ends because
  its condition fails, the successes and the slots given up after a failure that is not
  a rate limit add up to \<open>count\<close>.
\<close>

theorem tally_matches_passes:
  "success_count (final (while_loop count initial_state inps))
     + fail_count (final (while_loop count initial_state inps))
   = int (passes (while_loop count initial_state inps))
   \<and> (1 \<le> count \<and> ending (while_loop count initial_state inps) = Completed \<longrightarrow>
        success_count (final (while_loop count initial_state inps))
          + int (length (filter skips (take (passes (while_loop count initial_state inps)) inps)))
        = count)"
  using loop_tally[of count initial_state inps] loop_i_delta[of count initial_state inps]
    loop_completed_i[of count initial_state inps]
  by (auto simp: initial_state_def)

theorem tally_matches_passes_witness:
  "(1::int) \<le> 3
   \<and> ending (while_loop 3 initial_state
        [(Response 429, ''1''), (Response 500, ''1''), (Response 200, ''1''), (Response 200, ''1'')])
      = Completed
   \<and> success_count (final (while_loop 3 initial_state
        [(Response 429, ''1''), (Response 500, ''1''), (Response 200, ''1''), (Response 200, ''1'')]))
      + int (length (filter skips (take (passes (while_loop 3 initial_state
        [(Response 429, ''1''), (Response 500, ''1''), (Response 200, ''1''), (Response 200, ''1'')]))
        [(Response 429, ''1''), (Response 500, ''1''), (Response 200, ''1''), (Response 200, ''1'')])))
      = 3"
proof -
  let ?inps = "[(Response 429, ''1''), (Response 500, ''1''), (Response 200, ''1''), (Response 200, ''1'')]"
  have h: "(1::int) \<le> 3" by simp
  have w: "wait_time 1 = Inr 30"
    by (simp add: wait_time_def py_pow_1_5_def overflow_exponent_def base_wait_time_def)
  have e: "ending (while_loop 3 initial_state ?inps) = Completed"
    by (simp add: run_simps w)
  from tally_matches_passes[of 3 ?inps] h e show ?thesis by blast
qed

section \<open>The slot index and the counter of consecutive rate limits\<close>

lemma body_i:
  "i (state_of (fst (loop_body count s inp)))
     = (if py_in ''429'' (snd (send_ngl_message (fst inp))) then i s else i s + 1)"
  using body_success[of inp count s] body_other[of inp count s]
    body_rate_limit_state[of inp count s] branch_of_429[of "fst inp"]
  by (cases "branch_of (fst inp)") auto

lemma body_consecutive:
  "consecutive_rate_limits (state_of (fst (loop_body count s inp)))
     = (if py_in ''429'' (snd (send_ngl_message (fst inp)))
        then consecutive_rate_limits s + 1 else 0)"
  using body_success[of inp count s] body_other[of inp count s]
    body_rate_limit_state[of inp count s] branch_of_429[of "fst inp"]
  by (cases "branch_of (fst inp)") auto

lemma fixed_messages:
  "py_in ''429'' (snd (send_ngl_message (Response 429)))
   \<and> \<not> py_in ''429'' (snd (send_ngl_message (Response 200)))
   \<and> \<not> py_in ''429'' (snd (send_ngl_message Timeout))
   \<and> \<not> py_in ''429'' (snd (send_ngl_message ConnectionError))"
  by (simp add: send_ngl_message_def starts_with_def)

lemma wait_time_small:
  "wait_time 1 = Inr 30 \<and> wait_time 2 = Inr 45 \<and> wait_time 3 = Inr (135 / 2)"
  by (simp add: wait_time_def py_pow_1_5_def overflow_exponent_def base_wait_time_def power_divide)

text \<open>
  C2, as stated, fails: the loop looks for \<open>429\<close> in the status message, and the text of
  an exception can contain it. When the retries of the connection layer end in
  \<open>too many 429 error responses\<close>, the outcome is an \<open>OtherError\<close>, and the pass leaves
  \<open>i\<close> where it was.
\<close>

theorem other_error_keeps_slot:
  "send_ngl_message (RequestException ''too many 429 error responses'')
     = (False, ''Request error: too many 429 error responses'')
   \<and> i (state_of (fst (loop_body 5 initial_state
          (RequestException ''too many 429 error responses'', ''1'')))) = i initial_state"
  by (simp add: run_simps wait_time_small)

text \<open>
  C2, amended: in every pass, a \<open>RateLimited\<close> outcome leaves \<open>i\<close> unchanged; \<open>Success\<close>,
  \<open>Timeout\<close> and \<open>ConnectionError\<close> increment \<open>i\<close> by exactly 1; an \<open>HttpStatus\<close> or
  \<open>OtherError\<close> outcome increments \<open>i\<close> by exactly 1 unless its status message contains
  \<open>429\<close>, and then \<open>i\<close> is unchanged: \<open>i\<close> is unchanged when the status message contains
  \<open>429\<close>, and incremented by 1 otherwise.
\<close>

theorem slot_index_after_pass:
  "(fst inp = Response 429 \<longrightarrow> i (state_of (fst (loop_body count s inp))) = i s)
   \<and> (fst inp \<in> {Response 200, Timeout, ConnectionError} \<longrightarrow>
        i (state_of (fst (loop_body count s inp))) = i s + 1)
   \<and> i (state_of (fst (loop_body count s inp)))
       = (if py_in ''429'' (snd (send_ngl_message (fst inp))) then i s else i s + 1)"
  using body_i[of count s inp] fixed_messages by auto

theorem slot_index_after_pass_witness:
  "fst (Response 429, ''1'') = Response 429
   \<and> i (state_of (fst (loop_body 3 initial_state (Response 429, ''1'')))) = i initial_state
   \<and> fst (Timeout, ''1'') \<in> {Response 200, Timeout, ConnectionError}
   \<and> i (state_of (fst (loop_body 3 initial_state (Timeout, ''1'')))) = i initial_state + 1"
proof -
  have a: "fst (Response 429, ''1'') = Response 429" by simp
  have b: "fst (Timeout, ''1'') \<in> {Response 200, Timeout, ConnectionError}" by simp
  from slot_index_after_pass[where inp = "(Response 429, ''1'')" and count = 3 and s = initial_state]
    slot_index_after_pass[where inp = "(Timeout, ''1'')" and count = 3 and s = initial_state]
    a b
  show ?thesis by blast
qed

text \<open>
  C3, as stated, fails for the same reason: after one rate limit, an \<open>OtherError\<close> whose
  text contains \<open>429\<close> brings the counter to 2, not to 0.
\<close>

theorem other_error_counts_as_rate_limit:
  "send_ngl_message (RequestException ''too many 429 error responses'')
     = (False, ''Request error: too many 429 error responses'')
   \<and> consecutive_rate_limits (state_of (fst (loop_body 5
        \<lparr>success_count = 0, fail_count = 1, consecutive_rate_limits = 1, i = 1\<rparr>
        (RequestException ''too many 429 error responses'', ''1''))))
      = 2"
  by (simp add: run_simps wait_time_small)

text \<open>
  C3, amended: in every pass, \<open>consecutive_rate_limits\<close> is 0 after \<open>Success\<close>, after
  \<open>Timeout\<close>, after \<open>ConnectionError\<close>, and after an \<open>HttpStatus\<close> or \<open>OtherError\<close>
  outcome whose status message does not contain \<open>429\<close>; it is incremented by exactly 1
  by a \<open>RateLimited\<close> outcome, and by any other failure whose status message contains
  \<open>429\<close>.
\<close>

theorem consecutive_after_pass:
  "(fst inp = Response 429 \<longrightarrow>
      consecutive_rate_limits (state_of (fst (loop_body count s inp)))
        = consecutive_rate_limits s + 1)
   \<and> (fst inp \<in> {Response 200, Timeout, ConnectionError} \<longrightarrow>
        consecutive_rate_limits (state_of (fst (loop_body count s inp))) = 0)
   \<and> consecutive_rate_limits (state_of (fst (loop_body count s inp)))
       = (if py_in ''429'' (snd (send_ngl_message (fst inp)))
          then consecutive_rate_limits s + 1 else 0)"
  using body_consecutive[of count s inp] fixed_messages by auto

theorem consecutive_after_pass_witness:
  "fst (Response 429, ''1'') = Response 429
   \<and> consecutive_rate_limits (state_of (fst (loop_body 3
        \<lparr>success_count = 0, fail_count = 1, consecutive_rate_limits = 1, i = 1\<rparr>
        (Response 429, ''1''))))
      = consecutive_rate_limits
          \<lparr>success_count = 0, fail_count = 1, consecutive_rate_limits = 1, i = 1\<rparr> + 1
   \<and> fst (Response 200, ''1'') \<in> {Response 200, Timeout, ConnectionError}
   \<and> consecutive_rate_limits (state_of (fst (loop_body 3
        \<lparr>success_count = 0, fail_count = 1, consecutive_rate_limits = 1, i = 1\<rparr>
        (Response 200, ''1''))))
      = 0"
proof -
  let ?s = "\<lparr>success_count = 0, fail_count = 1, consecutive_rate_limits = 1, i = 1\<rparr>"
  have a: "fst (Response 429, ''1'') = Response 429" by simp
  have b: "fst (Response 200, ''1'') \<in> {Response 200, Timeout, ConnectionError}" by simp
  from consecutive_after_pass[where inp = "(Response 429, ''1'')" and count = 3 and s = ?s]
    consecutive_after_pass[where inp = "(Response 200, ''1'')" and count = 3 and s = ?s]
    a b
  show ?thesis by blast
qed



section \<open>The classification of one attempt\<close>



section \<open>The bound on the slot index\<close>

text \<open>
  C8: for every finite sequence of pass inputs and every \<open>count \<ge> 1\<close>, the slot index
  \<open>i\<close> is at most \<open>count + 1\<close> in the initial state, after every pass, and in the final
  state of the run.
\<close>

theorem slot_index_bounded:
  assumes "1 \<le> count"
  shows "(\<forall>t \<in> set (initial_state # states (while_loop count initial_state inps)). i t \<le> count + 1)
         \<and> i (final (while_loop count initial_state inps)) \<le> count + 1"
proof -
  from assms have "i initial_state \<le> count + 1" by (simp add: initial_state_def)
  from loop_i_le[OF this, of inps]
  have a: "\<forall>t \<in> set (initial_state # states (while_loop count initial_state inps)). i t \<le> count + 1" .
  have "final (while_loop count initial_state inps)
          \<in> set (initial_state # states (while_loop count initial_state inps))"
    unfolding final_last by (rule last_in_set) simp
  with a show ?thesis by blast
qed

theorem slot_index_bounded_witness:
  "(1::int) \<le> 3
   \<and> i (final (while_loop 3 initial_state
          [(Response 429, ''1''), (Response 200, ''1''), (Timeout, ''1''), (Response 200, ''1'')]))
      \<le> 3 + 1"
proof -
  have h: "(1::int) \<le> 3" by simp
  from slot_index_bounded[OF h] h show ?thesis by blast
qed

section \<open>The final report\<close>

lemma body_nonneg:
  "0 \<le> success_count s \<Longrightarrow> 0 \<le> fail_count s \<Longrightarrow>
   0 \<le> success_count (state_of (fst (loop_body count s inp)))
   \<and> 0 \<le> fail_count (state_of (fst (loop_body count s inp)))"
  using body_success[of inp count s] body_other[of inp count s] body_rate_limit_state[of inp count s]
  by (cases "branch_of (fst inp)") auto

lemma loop_nonneg:
  "0 \<le> success_count s \<Longrightarrow> 0 \<le> fail_count s \<Longrightarrow>
   0 \<le> success_count (final (while_loop count s inps))
   \<and> 0 \<le> fail_count (final (while_loop count s inps))"
proof (induction inps arbitrary: s)
  case Nil
  then show ?case by simp
next
  case (Cons inp inps)
  show ?case
  proof (cases "i s \<le> count")
    case False
    with Cons.prems show ?thesis by simp
  next
    case True
    obtain pr evs where b: "loop_body count s inp = (pr, evs)" by (cases "loop_body count s inp")
    have t: "0 \<le> success_count (state_of pr) \<and> 0 \<le> fail_count (state_of pr)"
      using body_nonneg[OF Cons.prems, of count inp] b by simp
    show ?thesis
    proof (cases pr)
      case (Next s1)
      with True b t Cons.IH[of s1] show ?thesis by (simp add: Let_def)
    next
      case (Break s1)
      with True b t show ?thesis by simp
    next
      case (Raise e s1)
      with True b t show ?thesis by simp
    qed
  qed
qed

text \<open>
  C7, as stated, fails: the line with the rate is guarded by \<open>success_count > 0\<close>, not by
  the denominator. A run of one slot whose attempt gets status 500 has no success and
  one failure, and its summary has no rate.
\<close>

theorem no_rate_without_success:
  "fail_count (final (fst (send_multiple_messages 1 [(Response 500, ''1'')]))) = 1
   \<and> snd (send_multiple_messages 1 [(Response 500, ''1'')])
       = Some (Inr \<lparr>successful = (0, 1), failed = (1, 1), success_rate = None\<rparr>)"
  by (simp add: send_multiple_messages_def report_def run_simps)

text \<open>
  C7, amended: after every run, the final report gives the two tallies against
  \<open>count\<close>, and it includes the success rate, computed as
  \<open>successes / (successes + failures)\<close> (in percent), exactly when there is at least one
  success (the denominator is then nonzero); it omits the rate when there is no
  success, also when there are failures.
\<close>

theorem report_success_rate:
  "report count (final (while_loop count initial_state inps)) =
     Inr \<lparr>successful = (success_count (final (while_loop count initial_state inps)), count),
          failed = (fail_count (final (while_loop count initial_state inps)), count),
          success_rate =
            (if 0 < success_count (final (while_loop count initial_state inps))
             then Some (of_int (success_count (final (while_loop count initial_state inps)))
                          / of_int (success_count (final (while_loop count initial_state inps))
                                     + fail_count (final (while_loop count initial_state inps)))
                          * 100)
             else None)\<rparr>"
  using loop_nonneg[of initial_state count inps]
  by (auto simp: report_def initial_state_def)

theorem report_success_rate_witness:
  "report 2 (final (while_loop 2 initial_state [(Response 500, ''1''), (Response 200, ''1'')]))
     = Inr \<lparr>successful = (1, 2), failed = (1, 2), success_rate = Some 50\<rparr>"
proof -
  have f: "final (while_loop 2 initial_state [(Response 500, ''1''), (Response 200, ''1'')])
             = \<lparr>success_count = 1, fail_count = 1, consecutive_rate_limits = 0, i = 3\<rparr>"
    by (simp add: run_simps)
  show ?thesis
    using report_success_rate[of 2 "[(Response 500, ''1''), (Response 200, ''1'')]"]
    unfolding f by simp
qed


section \<open>Properties of the backoff wait\<close>

lemma wait_time_eq:
  "1 \<le> c \<Longrightarrow> c \<le> 1751 \<Longrightarrow> wait_time c = Inr (min (30 * (3 / 2) ^ nat (c - 1)) 300)"
  by (simp add: wait_time_def py_pow_1_5_def overflow_exponent_def base_wait_time_def)

lemma wait_time_Inr_bound: "wait_time c = Inr w \<Longrightarrow> c \<le> 1751"
  by (auto simp: wait_time_def py_pow_1_5_def overflow_exponent_def split: if_splits sum.splits)

lemma wait_time_overflow: "1752 \<le> c \<Longrightarrow> wait_time c = Inl OverflowError"
  by (simp add: wait_time_def py_pow_1_5_def overflow_exponent_def)


lemma pow_mono: "m \<le> n \<Longrightarrow> ((3::rat) / 2) ^ m \<le> (3 / 2) ^ n"
  by (rule power_increasing) simp_all

lemma uncapped_small: "1 \<le> c \<Longrightarrow> c \<le> 6 \<Longrightarrow> 30 * ((3::rat) / 2) ^ nat (c - 1) < 300"
proof -
  assume "1 \<le> c" "c \<le> 6"
  then have "nat (c - 1) \<le> 5" by simp
  from pow_mono[OF this] have "((3::rat) / 2) ^ nat (c - 1) \<le> (3 / 2) ^ 5" .
  also have "\<dots> = 243 / 32" by (simp add: power_divide)
  finally show ?thesis by simp
qed

lemma uncapped_large: "7 \<le> c \<Longrightarrow> 300 < 30 * ((3::rat) / 2) ^ nat (c - 1)"
proof -
  assume "7 \<le> c"
  then have "6 \<le> nat (c - 1)" by simp
  from pow_mono[OF this] have "((3::rat) / 2) ^ 6 \<le> (3 / 2) ^ nat (c - 1)" .
  moreover have "((3::rat) / 2) ^ 6 = 729 / 64" by (simp add: power_divide)
  ultimately show ?thesis by simp
qed

lemma wait_mono:
  assumes "1 \<le> c" "c \<le> d" "wait_time c = Inr w" "wait_time d = Inr v"
  shows "w \<le> v \<and> v \<le> 300"
proof -
  have d: "d \<le> 1751" using assms(4) by (rule wait_time_Inr_bound)
  have w: "w = min (30 * (3 / 2) ^ nat (c - 1)) 300"
    using wait_time_eq[of c] assms d by simp
  have v: "v = min (30 * (3 / 2) ^ nat (d - 1)) 300"
    using wait_time_eq[of d] assms d by simp
  have "nat (c - 1) \<le> nat (d - 1)" using assms by simp
  from pow_mono[OF this] show ?thesis unfolding w v by (simp add: min_le_iff_disj)
qed

lemma wait_time_values:
  "wait_time 6 = Inr (3645 / 16) \<and> wait_time 7 = Inr 300 \<and> wait_time 9 = Inr 300
   \<and> base_wait_time * (3 / 2) ^ 8 = 98415 / 128"
  by (simp add: wait_time_def py_pow_1_5_def overflow_exponent_def base_wait_time_def power_divide)

lemma cap_iff:
  "1 \<le> c \<Longrightarrow> c \<le> 1751 \<Longrightarrow>
   (wait_time c = Inr 300) = (300 < 30 * ((3::rat) / 2) ^ nat (c - 1))"
  using uncapped_small[of c] uncapped_large[of c] wait_time_eq[of c]
  by (cases "c \<le> 6") auto

lemma exceeds_iff:
  "1 \<le> c \<Longrightarrow> (300 < 30 * ((3::rat) / 2) ^ nat (c - 1)) = (7 \<le> c)"
  using uncapped_small[of c] uncapped_large[of c]
  by (cases "c \<le> 6") auto

text \<open>
  The exponent from which \<open>1.5 ** k\<close> overflows: \<open>1.5 ^ 1750\<close> is below \<open>2 ^ 1024\<close> and
  \<open>1.5 ^ 1751\<close> is not.
\<close>

lemma three_halves_upper: "((3::rat) / 2) ^ 1750 < 2 ^ 1024"
proof -
  have a: "(3::rat) ^ 306 < 2 ^ 485" by simp
  have b: "(3::rat) ^ 220 < 2 ^ 349" by simp
  have a5: "((3::rat) ^ 306) ^ 5 < (2 ^ 485) ^ 5"
    using a by (rule power_strict_mono) (simp_all only: zero_le_power zero_le_numeral zero_less_numeral)
  have m: "((3::rat) ^ 306) ^ 5 * 3 ^ 220 < (2 ^ 485) ^ 5 * 2 ^ 349"
    using a5 b
    by (rule mult_strict_mono)
      (simp_all only: zero_less_power zero_le_power zero_le_numeral zero_less_numeral)
  have e1: "306 * 5 + 220 = (1750::nat)" by simp
  have e2: "485 * 5 + 349 = (1024 + 1750::nat)" by simp
  have l: "((3::rat) ^ 306) ^ 5 * 3 ^ 220 = 3 ^ (306 * 5 + 220)"
    by (simp only: power_mult power_add)
  have r: "((2::rat) ^ 485) ^ 5 * 2 ^ 349 = 2 ^ (485 * 5 + 349)"
    by (simp only: power_mult power_add)
  have "(3::rat) ^ 1750 < 2 ^ (1024 + 1750)" using m unfolding l r e1 e2 .
  then have "(3::rat) ^ 1750 < 2 ^ 1024 * 2 ^ 1750" by (simp only: power_add)
  then have "(3::rat) ^ 1750 / 2 ^ 1750 < 2 ^ 1024"
    by (simp only: pos_divide_less_eq[OF zero_less_power[OF zero_less_numeral]])
  then show ?thesis by (simp only: power_divide)
qed

lemma three_halves_lower: "(2::rat) ^ 1024 \<le> (3 / 2) ^ 1751"
proof -
  have a: "(2::rat) ^ 84 < 3 ^ 53" by simp
  have b: "(2::rat) ^ 3 < 3 ^ 2" by simp
  have a33: "((2::rat) ^ 84) ^ 33 < (3 ^ 53) ^ 33"
    using a by (rule power_strict_mono) (simp_all only: zero_le_power zero_le_numeral zero_less_numeral)
  have m: "((2::rat) ^ 84) ^ 33 * 2 ^ 3 < (3 ^ 53) ^ 33 * 3 ^ 2"
    using a33 b
    by (rule mult_strict_mono)
      (simp_all only: zero_less_power zero_le_power zero_le_numeral zero_less_numeral)
  have e1: "84 * 33 + 3 = (1024 + 1751::nat)" by simp
  have e2: "53 * 33 + 2 = (1751::nat)" by simp
  have l: "((2::rat) ^ 84) ^ 33 * 2 ^ 3 = 2 ^ (84 * 33 + 3)"
    by (simp only: power_mult power_add)
  have r: "((3::rat) ^ 53) ^ 33 * 3 ^ 2 = 3 ^ (53 * 33 + 2)"
    by (simp only: power_mult power_add)
  have "(2::rat) ^ (1024 + 1751) < 3 ^ 1751" using m unfolding l r e1 e2 .
  then have "(2::rat) ^ 1024 * 2 ^ 1751 \<le> 3 ^ 1751" by (simp only: power_add less_imp_le)
  then have "(2::rat) ^ 1024 \<le> 3 ^ 1751 / 2 ^ 1751"
    by (simp only: pos_le_divide_eq[OF zero_less_power[OF zero_less_numeral]])
  then show ?thesis by (simp only: power_divide)
qed

lemma overflow_exponent_least:
  "((3::rat) / 2) ^ nat (overflow_exponent - 1) < 2 ^ 1024
   \<and> (2::rat) ^ 1024 \<le> (3 / 2) ^ nat overflow_exponent"
  using three_halves_upper three_halves_lower by (simp add: overflow_exponent_def)

text \<open>
  C4, as stated, fails: at the sixth consecutive rate limit the wait is
  \<open>30 * 1.5 ^ 5 = 227.8125\<close> seconds, below the cap, not 300; and the formula is not
  computed for every \<open>consecutive_rate_limits \<ge> 1\<close>, since \<open>1.5 ** 1751\<close> overflows.
\<close>

theorem sixth_wait_is_not_capped:
  "wait_time 6 = Inr (3645 / 16) \<and> wait_time 6 \<noteq> Inr 300
   \<and> wait_time 1752 = Inl OverflowError"
  by (simp add: wait_time_def py_pow_1_5_def overflow_exponent_def base_wait_time_def power_divide)

text \<open>
  C4, amended: for \<open>1 \<le> consecutive_rate_limits \<le> 1751\<close> the wait is
  \<open>min (30 * 1.5 ^ (consecutive_rate_limits - 1)) 300\<close> seconds; it is non-decreasing
  in \<open>consecutive_rate_limits\<close> and at most 300; the waits 1, 2, 3 and 6 are 30, 45,
  67.5 and 227.8125; the wait is 300 exactly when the computed value exceeds 300, which
  is from the seventh consecutive rate limit on; at the ninth the computed value is
  \<open>30 * 1.5 ^ 8 = 768.8671875\<close> and the wait is 300.
\<close>

theorem backoff_wait_time:
  "(1 \<le> c \<and> c \<le> 1751 \<longrightarrow> wait_time c = Inr (min (30 * (3 / 2) ^ nat (c - 1)) 300))
   \<and> (1 \<le> c \<and> c \<le> d \<and> wait_time c = Inr w \<and> wait_time d = Inr v \<longrightarrow> w \<le> v \<and> v \<le> 300)
   \<and> wait_time 1 = Inr 30 \<and> wait_time 2 = Inr 45 \<and> wait_time 3 = Inr (135 / 2)
   \<and> wait_time 6 = Inr (3645 / 16)
   \<and> (1 \<le> c \<and> c \<le> 1751 \<longrightarrow>
        (wait_time c = Inr 300) = (300 < 30 * ((3::rat) / 2) ^ nat (c - 1)))
   \<and> (1 \<le> c \<longrightarrow> (300 < 30 * ((3::rat) / 2) ^ nat (c - 1)) = (7 \<le> c))
   \<and> base_wait_time * (3 / 2) ^ 8 = 98415 / 128 \<and> wait_time 9 = Inr 300"
  using wait_time_eq[of c] wait_mono[of c d w v] wait_time_small wait_time_values
    cap_iff[of c] exceeds_iff[of c]
  by blast

theorem backoff_wait_time_witness:
  "(1::int) \<le> 2 \<and> (2::int) \<le> 1751 \<and> (2::int) \<le> 7
   \<and> wait_time 2 = Inr 45 \<and> wait_time 7 = Inr 300
   \<and> wait_time 2 = Inr (min (30 * (3 / 2) ^ nat (2 - 1)) 300)
   \<and> (45::rat) \<le> 300 \<and> (300::rat) \<le> 300"
proof -
  have h: "(1::int) \<le> 2" "(2::int) \<le> 1751" "(2::int) \<le> 7" by simp_all
  have w: "wait_time 2 = Inr 45" "wait_time 7 = Inr 300"
    by (simp_all add: wait_time_def py_pow_1_5_def overflow_exponent_def base_wait_time_def
        power_divide)
  from backoff_wait_time[where c = 2 and d = 7 and w = 45 and v = 300] h w
  show ?thesis by blast
qed

section \<open>The countdown\<close>





section \<open>The prompt\<close>

lemma prompt_iff:
  "Prompt \<in> set (snd (loop_body count s inp))
    \<longleftrightarrow> py_in ''429'' (snd (send_ngl_message (fst inp)))
        \<and> 3 \<le> consecutive_rate_limits s + 1 \<and> consecutive_rate_limits s + 1 \<le> 1751"
proof (cases "branch_of (fst inp)")
  case OnSuccess
  then show ?thesis using body_success[OF OnSuccess, of count s] branch_of_429[of "fst inp"] by auto
next
  case OnOtherFailure
  then show ?thesis using body_other[OF OnOtherFailure, of count s] branch_of_429[of "fst inp"] by auto
next
  case OnRateLimit
  show ?thesis
  proof (cases "wait_time (consecutive_rate_limits s + 1)")
    case (Inl e)
    then have "\<not> consecutive_rate_limits s + 1 \<le> 1751"
      by (auto simp: wait_time_def py_pow_1_5_def overflow_exponent_def split: if_splits sum.splits)
    with Inl OnRateLimit show ?thesis
      by (auto simp: loop_body_def branch_of_def Let_def split: prod.splits if_splits)
  next
    case (Inr w)
    then have "consecutive_rate_limits s + 1 \<le> 1751"
      by (auto simp: wait_time_def py_pow_1_5_def overflow_exponent_def split: if_splits sum.splits)
    with Inr OnRateLimit branch_of_429[of "fst inp"] show ?thesis
      by (auto simp: loop_body_def branch_of_def Let_def split: prod.splits if_splits)
  qed
qed

lemma abort_iff:
  "(\<exists>s1 evs. loop_body count s inp = (Break s1, evs))
    \<longleftrightarrow> Prompt \<in> set (snd (loop_body count s inp)) \<and> py_strip (snd inp) = ''2''"
proof (cases "branch_of (fst inp)")
  case OnSuccess
  then show ?thesis using body_success[OF OnSuccess, of count s] by auto
next
  case OnOtherFailure
  then show ?thesis using body_other[OF OnOtherFailure, of count s] by auto
next
  case OnRateLimit
  then show ?thesis
    by (cases "wait_time (consecutive_rate_limits s + 1)")
      (auto simp: loop_body_def branch_of_def Let_def split: prod.splits if_splits)
qed

lemma break_events:
  "loop_body count s inp = (Break s1, evs) \<Longrightarrow> evs = [Sending (i s), Prompt]"
  by (auto simp: loop_body_def Let_def split: prod.splits if_splits sum.splits)

lemma abort_ends_run:
  assumes "i s \<le> count" and "loop_body count s inp = (Break s1, evs)"
  shows "while_loop count s (inp # inps)
           = \<lparr>ending = Aborted, states = [s1], final = s1, trace = [Sending (i s), Prompt]\<rparr>"
  using assms break_events[OF assms(2)] by simp

lemma aborted_run_reports:
  "ending (while_loop count initial_state inps) = Aborted \<Longrightarrow>
   snd (send_multiple_messages count inps)
     = Some (report count (final (while_loop count initial_state inps)))"
  by (simp add: send_multiple_messages_def Let_def)

lemma rate_limited_prefix:
  assumes "py_strip ch \<noteq> ''2''"
  shows "i s \<le> count \<Longrightarrow> 0 \<le> consecutive_rate_limits s
     \<Longrightarrow> consecutive_rate_limits s + int n \<le> 1751
     \<Longrightarrow> ending (while_loop count s (replicate n (Response 429, ch) @ rest))
           = ending (while_loop count
               (s\<lparr>fail_count := fail_count s + int n,
                  consecutive_rate_limits := consecutive_rate_limits s + int n\<rparr>) rest)
         \<and> final (while_loop count s (replicate n (Response 429, ch) @ rest))
           = final (while_loop count
               (s\<lparr>fail_count := fail_count s + int n,
                  consecutive_rate_limits := consecutive_rate_limits s + int n\<rparr>) rest)"
proof (induction n arbitrary: s)
  case 0
  then show ?case by simp
next
  case (Suc n)
  let ?s1 = "s\<lparr>fail_count := fail_count s + 1,
                consecutive_rate_limits := consecutive_rate_limits s + 1\<rparr>"
  have c: "1 \<le> consecutive_rate_limits s + 1" "consecutive_rate_limits s + 1 \<le> 1751"
    using Suc.prems by simp_all
  have w: "wait_time (consecutive_rate_limits s + 1)
             = Inr (min (30 * (3 / 2) ^ nat (consecutive_rate_limits s + 1 - 1)) 300)"
    using wait_time_eq[OF c] .
  have m: "send_ngl_message (Response 429) = (False, ''Rate limited (429)'')"
    by (simp add: send_ngl_message_def)
  have "\<exists>evs. loop_body count s (Response 429, ch) = (Next ?s1, evs)"
    using assms by (simp add: loop_body_def m w starts_with_def Let_def)
  then obtain evs where b: "loop_body count s (Response 429, ch) = (Next ?s1, evs)" ..
  have "ending (while_loop count ?s1 (replicate n (Response 429, ch) @ rest))
          = ending (while_loop count
              (?s1\<lparr>fail_count := fail_count ?s1 + int n,
                   consecutive_rate_limits := consecutive_rate_limits ?s1 + int n\<rparr>) rest)
        \<and> final (while_loop count ?s1 (replicate n (Response 429, ch) @ rest))
          = final (while_loop count
              (?s1\<lparr>fail_count := fail_count ?s1 + int n,
                   consecutive_rate_limits := consecutive_rate_limits ?s1 + int n\<rparr>) rest)"
    using Suc.prems by (intro Suc.IH) simp_all
  with b Suc.prems(1) show ?case by (simp add: Let_def add.assoc)
qed

text \<open>
  C5: the code does not keep to the claim. After 1751 consecutive rate limits, each
  answered with \<open>1\<close> at the prompt, the next rate-limited response makes the loop compute
  \<open>1.5 ** 1751\<close>, which raises \<open>OverflowError\<close> before the prompt is reached: the pass
  has brought \<open>consecutive_rate_limits\<close> to 1752, its only event is the transport call,
  and the function ends in the exception, without prompt and without summary.
\<close>

theorem overflow_before_prompt:
  "ending (while_loop 1 initial_state
      (replicate 1751 (Response 429, ''1'') @ [(Response 429, ''1'')])) = Failed OverflowError
   \<and> final (while_loop 1 initial_state
      (replicate 1751 (Response 429, ''1'') @ [(Response 429, ''1'')]))
     = \<lparr>success_count = 0, fail_count = 1752, consecutive_rate_limits = 1752, i = 1\<rparr>
   \<and> loop_body 1 \<lparr>success_count = 0, fail_count = 1751, consecutive_rate_limits = 1751, i = 1\<rparr>
        (Response 429, ''1'')
     = (Raise OverflowError
          \<lparr>success_count = 0, fail_count = 1752, consecutive_rate_limits = 1752, i = 1\<rparr>,
        [Sending 1])
   \<and> snd (send_multiple_messages 1
        (replicate 1751 (Response 429, ''1'') @ [(Response 429, ''1'')])) = None"
proof -
  let ?x = "(Response 429, ''1'')"
  let ?s = "\<lparr>success_count = 0, fail_count = 1751, consecutive_rate_limits = 1751, i = 1\<rparr>"
  let ?t = "\<lparr>success_count = 0, fail_count = 1752, consecutive_rate_limits = 1752, i = 1\<rparr>"
  have st: "py_strip ''1'' \<noteq> ''2''" by (simp add: py_strip_def is_space_def)
  have b: "loop_body 1 ?s ?x = (Raise OverflowError ?t, [Sending 1])"
    by (simp add: loop_body_def send_ngl_message_def starts_with_def Let_def wait_time_overflow)
  have l: "while_loop 1 ?s [?x]
             = \<lparr>ending = Failed OverflowError, states = [?t], final = ?t, trace = [Sending 1]\<rparr>"
    using b by simp
  have p: "ending (while_loop 1 initial_state (replicate 1751 ?x @ [?x]))
             = ending (while_loop 1
                 (initial_state\<lparr>fail_count := fail_count initial_state + int 1751,
                    consecutive_rate_limits := consecutive_rate_limits initial_state + int 1751\<rparr>)
                 [?x])
           \<and> final (while_loop 1 initial_state (replicate 1751 ?x @ [?x]))
             = final (while_loop 1
                 (initial_state\<lparr>fail_count := fail_count initial_state + int 1751,
                    consecutive_rate_limits := consecutive_rate_limits initial_state + int 1751\<rparr>)
                 [?x])"
    by (rule rate_limited_prefix[OF st]) (simp_all add: initial_state_def)
  have s: "initial_state\<lparr>fail_count := fail_count initial_state + int 1751,
             consecutive_rate_limits := consecutive_rate_limits initial_state + int 1751\<rparr> = ?s"
    by (simp add: initial_state_def)
  have e: "ending (while_loop 1 initial_state (replicate 1751 ?x @ [?x])) = Failed OverflowError"
    and f: "final (while_loop 1 initial_state (replicate 1751 ?x @ [?x])) = ?t"
    using p unfolding s l by simp_all
  have r: "snd (send_multiple_messages 1 (replicate 1751 ?x @ [?x])) = None"
    unfolding send_multiple_messages_def Let_def e by simp
  from e f b r show ?thesis by blast
qed

end
